theory Spec2Isabelle
  imports Complex_Main
begin

section \<open>Word language model: training orchestration (main.py)\<close>

text \<open>
  The development follows \<^verbatim>\<open>word_language_model/main.py\<close>. Python integers are
  \<^typ>\<open>int\<close>, Python floats are idealised as \<^typ>\<open>real\<close>, and every exception the
  code can raise is a value of \<open>error\<close> on the left of a sum.
\<close>

subsection \<open>Errors and tensors\<close>

datatype error = ZeroDivisionError | RuntimeError | ValueError | IndexError

text \<open>
  The sizes and indices of a tensor are 64-bit signed integers; a Python integer outside
  that range is refused when the arguments of a tensor operation are unpacked.
\<close>

definition int64 :: "int \<Rightarrow> bool" where
  "int64 x = (- (2 ^ 63) \<le> x \<and> x < 2 ^ 63)"

text \<open>
  A one-dimensional tensor is the list of its elements, of a length that is a 64-bit
  size: \<open>tokens\<close> reads the elements and \<open>tensor1\<close> makes the tensor of a list. A
  two-dimensional tensor is its shape together with its elements in row-major
  (contiguous) order.
\<close>

typedef 'a tensor1 = "{xs :: 'a list. int (length xs) < 2 ^ 63}"
  morphisms tokens tensor1
  by (rule exI[of _ "[]"]) simp

record 'a tensor2 =
  nrows :: nat
  ncols :: nat
  elems :: "'a list"

definition at2 :: "'a tensor2 \<Rightarrow> nat \<Rightarrow> nat \<Rightarrow> 'a" where
  "at2 m r c = elems m ! (r * ncols m + c)"

definition row :: "'a tensor2 \<Rightarrow> nat \<Rightarrow> 'a list" where
  "row m r = map (\<lambda>c. at2 m r c) [0..<ncols m]"

definition column :: "'a tensor2 \<Rightarrow> nat \<Rightarrow> 'a list" where
  "column m c = map (\<lambda>r. at2 m r c) [0..<nrows m]"

text \<open>
  \<^verbatim>\<open>x.narrow(0, start, length)\<close> on the elements of a one-dimensional tensor. The checks
  in the order the operation makes them: the arguments are unpacked as 64-bit integers,
  the length must not be negative, the start must lie in \<open>[-n, n]\<close> (a negative start
  counts from the end), and the range must fit.
\<close>

definition narrow :: "'a list \<Rightarrow> int \<Rightarrow> int \<Rightarrow> error + 'a list" where
  "narrow xs start len =
     (let n = int (length xs)
      in if \<not> int64 start \<or> \<not> int64 len then Inl ValueError
         else if len < 0 then Inl RuntimeError
         else if start < - n \<or> n < start then Inl IndexError
         else
           let s = (if start < 0 then start + n else start)
           in if n < s + len then Inl RuntimeError
              else Inr (take (nat len) (drop (nat s) xs)))"

text \<open>
  \<^verbatim>\<open>x.view(bsz, -1)\<close> on the elements of a one-dimensional tensor: the second dimension
  is inferred. The size \<open>bsz\<close> is unpacked as a 64-bit integer. A negative \<open>bsz\<close> is an
  invalid shape (or a second inferred dimension), \<open>bsz = 0\<close> leaves the inferred dimension
  ambiguous or mismatches the size, and otherwise the number of elements has to be a
  multiple of \<open>bsz\<close>. The elements stay in place.
\<close>

definition view_rows :: "'a list \<Rightarrow> int \<Rightarrow> error + 'a tensor2" where
  "view_rows xs bsz =
     (if \<not> int64 bsz then Inl ValueError
      else if bsz \<le> 0 then Inl RuntimeError
      else if int (length xs) mod bsz \<noteq> 0 then Inl RuntimeError
      else Inr \<lparr>nrows = nat bsz, ncols = length xs div nat bsz, elems = xs\<rparr>)"

text \<open>\<^verbatim>\<open>m.t().contiguous()\<close>: the transpose, laid out row-major again.\<close>

definition t_contiguous :: "'a tensor2 \<Rightarrow> 'a tensor2" where
  "t_contiguous m =
     \<lparr>nrows = ncols m, ncols = nrows m,
      elems = concat (map (\<lambda>r. map (\<lambda>c. at2 m c r) [0..<nrows m]) [0..<ncols m])\<rparr>"

subsection \<open>batchify\<close>

text \<open>
  \<^verbatim>\<open>
  def batchify(data, bsz):
      nbatch = data.size(0) // bsz
      data = data.narrow(0, 0, nbatch * bsz)
      data = data.view(bsz, -1).t().contiguous()
      return data.cuda()
  \<close>
  Python's \<open>//\<close> on integers is floor division, as \<open>div\<close> on \<^typ>\<open>int\<close>, and raises
  on a zero divisor. Device placement (\<open>cuda\<close>) does not change the value.
\<close>

definition batchify :: "'a tensor1 \<Rightarrow> int \<Rightarrow> error + 'a tensor2" where
  "batchify data bsz =
     (if bsz = 0 then Inl ZeroDivisionError
      else
        let nbatch = int (length (tokens data)) div bsz in
        case narrow (tokens data) 0 (nbatch * bsz) of
          Inl e \<Rightarrow> Inl e
        | Inr d \<Rightarrow>
            (case view_rows d bsz of
               Inl e \<Rightarrow> Inl e
             | Inr m \<Rightarrow> Inr (t_contiguous m)))"

subsection \<open>Command-line arguments\<close>

text \<open>
  The fields of \<^verbatim>\<open>args\<close> that the orchestration reads: \<^verbatim>\<open>--bptt\<close>, \<^verbatim>\<open>--rank\<close>,
  \<^verbatim>\<open>--world_size\<close> (all \<^verbatim>\<open>type=int\<close>), \<^verbatim>\<open>--lr\<close> and \<^verbatim>\<open>--epochs\<close>.
\<close>

record args =
  bptt :: int
  rank :: int
  world_size :: int
  lr :: real
  epochs :: int

subsection \<open>get\_batch\<close>

text \<open>
  Slicing along dimension 0, \<^verbatim>\<open>source[lo:hi]\<close>: a negative bound counts from the end and
  both bounds are clamped to the number of rows, as Python's slices do. An empty range
  gives a tensor with no rows.
\<close>

definition slice_index :: "nat \<Rightarrow> int \<Rightarrow> nat" where
  "slice_index n i = (if i < 0 then nat (max 0 (i + int n)) else min n (nat i))"

definition slice_rows :: "'a tensor2 \<Rightarrow> int \<Rightarrow> int \<Rightarrow> 'a tensor2" where
  "slice_rows m lo hi =
     (let a = slice_index (nrows m) lo; b = slice_index (nrows m) hi; k = b - a
      in \<lparr>nrows = k, ncols = ncols m,
          elems = take (k * ncols m) (drop (a * ncols m) (elems m))\<rparr>)"

text \<open>\<^verbatim>\<open>x.view(-1)\<close> of a contiguous tensor: its elements in row-major order.\<close>

definition view_flat :: "'a tensor2 \<Rightarrow> 'a list" where
  "view_flat m = elems m"

text \<open>
  \<^verbatim>\<open>
  def get_batch(source, i):
      seq_len = min(args.bptt, len(source) - 1 - i)
      data = source[i:i+seq_len]
      target = source[i+1:i+1+seq_len].view(-1)
      return data, target
  \<close>
\<close>

definition get_batch :: "args \<Rightarrow> 'a tensor2 \<Rightarrow> int \<Rightarrow> 'a tensor2 \<times> 'a list" where
  "get_batch a source i =
     (let seq_len = min (bptt a) (int (nrows source) - 1 - i);
          data = slice_rows source i (i + seq_len);
          target = view_flat (slice_rows source (i + 1) (i + 1 + seq_len))
      in (data, target))"

text \<open>A two-dimensional tensor is well formed when it holds \<open>nrows * ncols\<close> elements.\<close>

definition wf_tensor2 :: "'a tensor2 \<Rightarrow> bool" where
  "wf_tensor2 m = (length (elems m) = nrows m * ncols m)"

subsection \<open>Step offsets\<close>

text \<open>
  Python's \<^verbatim>\<open>range(start, stop, step)\<close>: a zero step raises \<^verbatim>\<open>ValueError\<close>, a positive
  step counts up while below \<open>stop\<close>, a negative step counts down while above it.
\<close>

function range_up :: "int \<Rightarrow> int \<Rightarrow> int \<Rightarrow> int list" where
  "range_up i stop step =
     (if 0 < step \<and> i < stop then i # range_up (i + step) stop step else [])"
  by pat_completeness auto
termination
  by (relation "measure (\<lambda>(i, stop, step). nat (stop - i))") auto

function range_down :: "int \<Rightarrow> int \<Rightarrow> int \<Rightarrow> int list" where
  "range_down i stop step =
     (if step < 0 \<and> stop < i then i # range_down (i + step) stop step else [])"
  by pat_completeness auto
termination
  by (relation "measure (\<lambda>(i, stop, step). nat (i - stop))") auto

definition py_range :: "int \<Rightarrow> int \<Rightarrow> int \<Rightarrow> error + int list" where
  "py_range start stop step =
     (if step = 0 then Inl ValueError
      else if 0 < step then Inr (range_up start stop step)
      else Inr (range_down start stop step))"

text \<open>
  The offsets both loops iterate over:
  \<^verbatim>\<open>range(args.bptt * args.rank, data.size(0) - 1, args.bptt * args.world_size)\<close>.
\<close>

definition step_offsets :: "args \<Rightarrow> nat \<Rightarrow> error + int list" where
  "step_offsets a rows =
     py_range (bptt a * rank a) (int rows - 1) (bptt a * world_size a)"

subsection \<open>Hidden state\<close>

text \<open>
  A tensor of the hidden state carries its values and, when it was produced by a tracked
  computation, a backward history (\<^verbatim>\<open>grad_fn\<close>). \<^verbatim>\<open>detach\<close> returns a tensor with the
  same values and no history. A hidden state is a tensor or a tuple of hidden states.
  \<^verbatim>\<open>
  def repackage_hidden(h):
      if isinstance(h, torch.Tensor):
          return h.detach()
      else:
          return tuple(repackage_hidden(v) for v in h)
  \<close>
\<close>

record ('v, 'g) tensor =
  tvalues :: 'v
  grad_fn :: "'g option"

definition detach :: "('v, 'g) tensor \<Rightarrow> ('v, 'g) tensor" where
  "detach x = x\<lparr>grad_fn := None\<rparr>"

datatype ('v, 'g) hidden =
  Tensor "('v, 'g) tensor"
| Tuple "('v, 'g) hidden list"

fun repackage_hidden :: "('v, 'g) hidden \<Rightarrow> ('v, 'g) hidden" where
  "repackage_hidden (Tensor x) = Tensor (detach x)"
| "repackage_hidden (Tuple hs) = Tuple (map repackage_hidden hs)"

text \<open>The numeric values of a hidden state with its tuple structure, history left out.\<close>

datatype 'v plain = PTensor 'v | PTuple "'v plain list"

fun values_of :: "('v, 'g) hidden \<Rightarrow> 'v plain" where
  "values_of (Tensor x) = PTensor (tvalues x)"
| "values_of (Tuple hs) = PTuple (map values_of hs)"

fun no_history :: "('v, 'g) hidden \<Rightarrow> bool" where
  "no_history (Tensor x) = (grad_fn x = None)"
| "no_history (Tuple hs) = list_all no_history hs"

subsection \<open>Evaluation loop\<close>

text \<open>
  The recurrent model and the loss are external: \<open>model data hidden\<close> is the forward pass,
  returning the output and the new hidden state, and \<open>criterion output targets\<close> is the
  mean loss of a window as a number (\<^verbatim>\<open>criterion(output.view(-1, ntokens), targets).item()\<close>).
  The initial hidden state \<open>hidden0\<close> is the result of \<^verbatim>\<open>init_hidden\<close>.
  \<^verbatim>\<open>
  def evaluate(data_source, model, criterion, corpus, eval_batch_size):
      total_loss = 0.
      hidden = init_hidden(model, eval_batch_size)
      with torch.no_grad():
          for i in range(args.bptt * args.rank, data_source.size(0) - 1,
                         args.bptt * args.world_size):
              data, targets = get_batch(data_source, i)
              output, hidden = model(data, hidden)
              output_flat = output.view(-1, ntokens)
              total_loss += len(data) * criterion(output_flat, targets).item()
              hidden = repackage_hidden(hidden)
      return total_loss / ((len(data_source) - 1) / float(args.world_size))
  \<close>
  A float division by zero raises \<^verbatim>\<open>ZeroDivisionError\<close>.
\<close>

fun eval_loop ::
  "args \<Rightarrow> ('a tensor2 \<Rightarrow> ('v, 'g) hidden \<Rightarrow> 'o \<times> ('v, 'g) hidden) \<Rightarrow> ('o \<Rightarrow> 'a list \<Rightarrow> real) \<Rightarrow>
   'a tensor2 \<Rightarrow> int list \<Rightarrow> real \<times> ('v, 'g) hidden \<Rightarrow> real \<times> ('v, 'g) hidden" where
  "eval_loop a model criterion data_source [] st = st"
| "eval_loop a model criterion data_source (i # is) (total_loss, hidden) =
     (let (data, targets) = get_batch a data_source i;
          (output, hidden') = model data hidden;
          total_loss' = total_loss + real (nrows data) * criterion output targets
      in eval_loop a model criterion data_source is (total_loss', repackage_hidden hidden'))"

definition evaluate ::
  "args \<Rightarrow> ('a tensor2 \<Rightarrow> ('v, 'g) hidden \<Rightarrow> 'o \<times> ('v, 'g) hidden) \<Rightarrow> ('o \<Rightarrow> 'a list \<Rightarrow> real) \<Rightarrow>
   'a tensor2 \<Rightarrow> ('v, 'g) hidden \<Rightarrow> error + real" where
  "evaluate a model criterion data_source hidden0 =
     (case step_offsets a (nrows data_source) of
        Inl e \<Rightarrow> Inl e
      | Inr offs \<Rightarrow>
          (let (total_loss, hidden) = eval_loop a model criterion data_source offs (0, hidden0)
           in if world_size a = 0 then Inl ZeroDivisionError
              else
                let share = real_of_int (int (nrows data_source) - 1) / real_of_int (world_size a)
                in if share = 0 then Inl ZeroDivisionError else Inr (total_loss / share)))"

text \<open>
  The windows of an evaluation pass, in order: for each offset the window length
  \<^verbatim>\<open>len(data)\<close> and the mean loss the criterion returns for it.
\<close>

fun eval_windows ::
  "args \<Rightarrow> ('a tensor2 \<Rightarrow> ('v, 'g) hidden \<Rightarrow> 'o \<times> ('v, 'g) hidden) \<Rightarrow> ('o \<Rightarrow> 'a list \<Rightarrow> real) \<Rightarrow>
   'a tensor2 \<Rightarrow> int list \<Rightarrow> ('v, 'g) hidden \<Rightarrow> (nat \<times> real) list" where
  "eval_windows a model criterion data_source [] hidden = []"
| "eval_windows a model criterion data_source (i # is) hidden =
     (let (data, targets) = get_batch a data_source i;
          (output, hidden') = model data hidden
      in (nrows data, criterion output targets)
           # eval_windows a model criterion data_source is (repackage_hidden hidden'))"

subsection \<open>Training loop\<close>

text \<open>
  The optimizer's first parameter group holds the learning rate the optimizer step reads.
\<close>

record optimizer =
  group_lr :: real

text \<open>\<^verbatim>\<open>int(x)\<close> of a float truncates towards zero.\<close>

definition py_int :: "real \<Rightarrow> int" where
  "py_int x = (if 0 \<le> x then \<lfloor>x\<rfloor> else \<lceil>x\<rceil>)"

text \<open>
  \<^verbatim>\<open>
  def train(model, optimizer, criterion, train_data, corpus, epoch, lr):
      bptt = args.bptt if np.random.random() < 0.95 else args.bptt / 2.
      seq_len = max(5, int(np.random.normal(bptt, 5)))
      lr2 = optimizer.param_groups[0]['lr']
      optimizer.param_groups[0]['lr'] = lr2 * seq_len / args.bptt
      hidden = init_hidden(model, args.batch_size)
      for batch, i in enumerate(range(args.bptt * args.rank, train_data.size(0) - 1,
                                      args.bptt * args.world_size)):
          data, targets = get_batch(train_data, i)
          hidden = repackage_hidden(hidden)
          optimizer.zero_grad()
          output, hidden = model(data, hidden)
          loss = criterion(output.view(-1, ntokens), targets)
          loss.backward()
          torch.nn.utils.clip_grad_norm_(model.parameters(), args.clip)
          optimizer.step()
          ...
      optimizer.param_groups[0]['lr'] = lr2
  \<close>
  The two random draws are inputs: \<open>u\<close> is the value of \<^verbatim>\<open>np.random.random()\<close> and
  \<open>normal loc scale\<close> the value of \<^verbatim>\<open>np.random.normal(loc, scale)\<close>. The work of one
  iteration from \<^verbatim>\<open>zero_grad\<close> to \<^verbatim>\<open>optimizer.step()\<close> is external:
  \<open>train_step lr data targets hidden m\<close> is given the learning rate the optimizer holds at
  that moment and returns the updated model and the new hidden state. Logging does
  not change the state.
\<close>

definition train_bptt :: "args \<Rightarrow> real \<Rightarrow> real" where
  "train_bptt a u = (if u < 95 / 100 then real_of_int (bptt a) else real_of_int (bptt a) / 2)"

definition train_seq_len :: "args \<Rightarrow> real \<Rightarrow> (real \<Rightarrow> real \<Rightarrow> real) \<Rightarrow> int" where
  "train_seq_len a u normal = max 5 (py_int (normal (train_bptt a u) 5))"

text \<open>Lines 136 to 140: the draws and the scaling of the optimizer's learning rate.\<close>

definition train_scale_lr ::
  "args \<Rightarrow> real \<Rightarrow> (real \<Rightarrow> real \<Rightarrow> real) \<Rightarrow> optimizer \<Rightarrow> error + optimizer" where
  "train_scale_lr a u normal opt =
     (let seq_len = train_seq_len a u normal;
          lr2 = group_lr opt
      in if bptt a = 0 then Inl ZeroDivisionError
         else Inr (opt\<lparr>group_lr := lr2 * real_of_int seq_len / real_of_int (bptt a)\<rparr>))"

fun train_loop ::
  "args \<Rightarrow> (real \<Rightarrow> 'a tensor2 \<Rightarrow> 'a list \<Rightarrow> ('v, 'g) hidden \<Rightarrow> 'm \<Rightarrow> 'm \<times> ('v, 'g) hidden) \<Rightarrow>
   'a tensor2 \<Rightarrow> int list \<Rightarrow> optimizer \<times> 'm \<times> ('v, 'g) hidden \<Rightarrow>
   optimizer \<times> 'm \<times> ('v, 'g) hidden" where
  "train_loop a train_step train_data [] st = st"
| "train_loop a train_step train_data (i # is) (opt, m, hidden) =
     (let (data, targets) = get_batch a train_data i;
          hidden1 = repackage_hidden hidden;
          (m', hidden') = train_step (group_lr opt) data targets hidden1 m
      in train_loop a train_step train_data is (opt, m', hidden'))"

definition train ::
  "args \<Rightarrow> real \<Rightarrow> (real \<Rightarrow> real \<Rightarrow> real) \<Rightarrow>
   (real \<Rightarrow> 'a tensor2 \<Rightarrow> 'a list \<Rightarrow> ('v, 'g) hidden \<Rightarrow> 'm \<Rightarrow> 'm \<times> ('v, 'g) hidden) \<Rightarrow>
   'a tensor2 \<Rightarrow> ('v, 'g) hidden \<Rightarrow> optimizer \<times> 'm \<Rightarrow> error + optimizer \<times> 'm" where
  "train a u normal train_step train_data hidden0 st =
     (case st of (opt, m) \<Rightarrow>
        (case train_scale_lr a u normal opt of
           Inl e \<Rightarrow> Inl e
         | Inr opt1 \<Rightarrow>
             (case step_offsets a (nrows train_data) of
                Inl e \<Rightarrow> Inl e
              | Inr offs \<Rightarrow>
                  (case train_loop a train_step train_data offs (opt1, m, hidden0) of
                     (opt2, m', hidden') \<Rightarrow> Inr (opt2\<lparr>group_lr := group_lr opt\<rparr>, m')))))"

subsection \<open>Epoch controller\<close>

text \<open>
  \<^verbatim>\<open>
  lr = args.lr
  best_val_loss = None
  optimizer = torch.optim.SGD(model.parameters(), lr=args.lr)
  for epoch in range(1, args.epochs+1):
      train(model, optimizer, criterion, train_data, corpus, epoch, lr)
      val_loss = evaluate(val_data, model, criterion, corpus, eval_batch_size)
      # Save the model if the validation loss is the best we've seen so far.
      if not best_val_loss or val_loss < best_val_loss:
          with open(args.save, 'wb') as f:
              torch.save(model, f)
          best_val_loss = val_loss
      else:
          # Anneal the learning rate if no improvement has been seen in the validation dataset.
          lr /= 4.0
          optimizer.param_groups[0]['lr'] = lr
  \<close>
  The controller's state is the variable \<open>lr\<close>, \<open>best_val_loss\<close>, the optimizer and the
  epochs at which a snapshot was written. The validation loss of each epoch is an input,
  \<open>val_loss epoch\<close>; \<open>train\<close> leaves the optimizer's learning rate as it found it.
  \<^verbatim>\<open>not best_val_loss\<close> is true for \<^verbatim>\<open>None\<close> and for a float equal to zero; \<^verbatim>\<open>or\<close>
  evaluates the comparison only when it is false, so \<open>best_val_loss\<close> is a number there.
\<close>

record training_state =
  cur_lr :: real
  best_val_loss :: "real option"
  optim :: optimizer
  saved :: "nat list"

definition py_not :: "real option \<Rightarrow> bool" where
  "py_not x = (case x of None \<Rightarrow> True | Some v \<Rightarrow> v = 0)"

definition epoch_end :: "nat \<Rightarrow> real \<Rightarrow> training_state \<Rightarrow> training_state" where
  "epoch_end epoch val_loss st =
     (if py_not (best_val_loss st)
          \<or> (case best_val_loss st of None \<Rightarrow> False | Some best \<Rightarrow> val_loss < best)
      then st\<lparr>saved := saved st @ [epoch], best_val_loss := Some val_loss\<rparr>
      else st\<lparr>cur_lr := cur_lr st / 4,
              optim := (optim st)\<lparr>group_lr := cur_lr st / 4\<rparr>\<rparr>)"

fun epoch_loop :: "(nat \<Rightarrow> real) \<Rightarrow> nat list \<Rightarrow> training_state \<Rightarrow> training_state" where
  "epoch_loop val_loss [] st = st"
| "epoch_loop val_loss (epoch # rest) st =
     epoch_loop val_loss rest (epoch_end epoch (val_loss epoch) st)"

definition run_epochs :: "args \<Rightarrow> (nat \<Rightarrow> real) \<Rightarrow> training_state" where
  "run_epochs a val_loss =
     epoch_loop val_loss [1..<nat (epochs a + 1)]
       \<lparr>cur_lr = lr a, best_val_loss = None, optim = \<lparr>group_lr = lr a\<rparr>, saved = []\<rparr>"



section \<open>Properties\<close>

subsection \<open>Sequence batcher\<close>

lemma flat_index_bound: "r < R \<Longrightarrow> c < C \<Longrightarrow> r * C + c < R * (C::nat)"
proof -
  assume r: "r < R" and c: "c < C"
  have "r * C + c < Suc r * C" using c by simp
  also have "\<dots> \<le> R * C" using r by (intro mult_le_mono1) simp
  finally show ?thesis .
qed

lemma length_concat_grid:
  "length (concat (map (\<lambda>r. map (f r) [0..<C]) [0..<R])) = R * C"
  by (induction R) simp_all

lemma concat_grid_nth:
  "r < R \<Longrightarrow> c < C \<Longrightarrow> concat (map (\<lambda>r. map (f r) [0..<C]) [0..<R]) ! (r * C + c) = f r c"
proof (induction R)
  case 0 then show ?case by simp
next
  case (Suc R)
  show ?case
  proof (cases "r < R")
    case True
    with Suc show ?thesis
      by (simp add: nth_append length_concat_grid flat_index_bound)
  next
    case False
    with Suc.prems have "r = R" by simp
    with Suc.prems show ?thesis by (simp add: nth_append length_concat_grid)
  qed
qed

lemma concat_chunks:
  "concat (map (\<lambda>c. take R (drop (c * R) xs)) [0..<C]) = take (C * R) xs"
proof (induction C arbitrary: xs)
  case 0 then show ?case by simp
next
  case (Suc C)
  have "concat (map (\<lambda>c. take R (drop (c * R) xs)) [0..<Suc C])
      = take R xs @ concat (map (\<lambda>c. take R (drop (Suc c * R) xs)) [0..<C])"
    by (simp only: upt_conv_Cons[of 0 "Suc C"] map_Suc_upt[symmetric]) (simp add: comp_def del: upt_Suc)
  also have "(\<lambda>c. take R (drop (Suc c * R) xs)) = (\<lambda>c. take R (drop (c * R) (drop R xs)))"
    by (simp add: add.commute)
  also have "take R xs @ concat (map (\<lambda>c. take R (drop (c * R) (drop R xs))) [0..<C])
      = take R xs @ take (C * R) (drop R xs)" by (simp only: Suc.IH)
  also have "\<dots> = take (Suc C * R) xs"
    by (simp add: take_add)
  finally show ?case .
qed

lemma take_drop_nth_map:
  "c * R + R \<le> length xs \<Longrightarrow> map (\<lambda>r. xs ! (c * R + r)) [0..<R] = take R (drop (c * R) xs)"
  by (rule nth_equalityI) auto

lemma column_t_contiguous:
  assumes "c < nrows m"
  shows "column (t_contiguous m) c = map (\<lambda>r. elems m ! (c * ncols m + r)) [0..<ncols m]"
  using assms
  by (simp add: column_def at2_def t_contiguous_def concat_grid_nth)

lemma narrow_prefix:
  "k \<le> length xs \<Longrightarrow> int k < 2 ^ 63 \<Longrightarrow> narrow xs 0 (int k) = Inr (take k xs)"
  by (simp add: narrow_def int64_def)

lemma tokens_length: "int (length (tokens data)) < 2 ^ 63"
  using tokens[of data] by simp

lemma batchify_pos:
  assumes "0 < B" and "B < 2 ^ 63"
  shows "batchify data B =
    Inr (t_contiguous \<lparr>nrows = nat B, ncols = length (tokens data) div nat B,
           elems = take (nat B * (length (tokens data) div nat B)) (tokens data)\<rparr>)"
proof -
  define xs where "xs = tokens data"
  define L where "L = length xs"
  define n where "n = nat B"
  have B: "B = int n" "0 < n" using assms by (simp_all add: n_def)
  have i64: "int64 B" using assms by (simp add: int64_def)
  have nb: "int L div B * B = int (L div n * n)" by (simp add: B zdiv_int)
  have le: "L div n * n \<le> L" by simp
  have "int L < 2 ^ 63" using tokens_length[of data] by (simp add: L_def xs_def)
  then have small: "int (L div n * n) < 2 ^ 63" using le by linarith
  have nar: "narrow xs 0 (int L div B * B) = Inr (take (L div n * n) xs)"
    unfolding nb using le small by (intro narrow_prefix) (simp_all add: L_def)
  have len: "length (take (L div n * n) xs) = L div n * n"
    using le by (simp add: L_def)
  have vw: "view_rows (take (L div n * n) xs) B =
      Inr \<lparr>nrows = n, ncols = L div n, elems = take (L div n * n) xs\<rparr>"
    unfolding view_rows_def len using B(2) i64
    by (simp add: B(1) flip: of_nat_mult of_nat_mod)
  have "batchify data B =
      Inr (t_contiguous \<lparr>nrows = n, ncols = L div n, elems = take (L div n * n) xs\<rparr>)"
    unfolding batchify_def Let_def xs_def[symmetric]
    using assms(1) nar vw by (simp add: L_def)
  then show ?thesis
    by (simp add: L_def n_def xs_def mult.commute)
qed

text \<open>
  Claim C1. For a token sequence of length \<open>L\<close> and a batch width \<open>B\<close> with
  \<open>1 \<le> B \<le> L\<close>, \<open>batchify\<close> returns a matrix with \<open>L div B\<close> rows and \<open>B\<close> columns;
  its columns, concatenated in column order, are the first \<open>B * (L div B)\<close> tokens of the
  sequence, and the \<open>L mod B\<close> trailing tokens are dropped.
\<close>

theorem batchify_columns:
  assumes "1 \<le> B" and "B \<le> int (length (tokens data))"
  shows "\<exists>m. batchify data B = Inr m
           \<and> nrows m = length (tokens data) div nat B \<and> ncols m = nat B
           \<and> length (elems m) = nrows m * ncols m
           \<and> concat (map (column m) [0..<nat B])
               = take (nat B * (length (tokens data) div nat B)) (tokens data)
           \<and> length (drop (nat B * (length (tokens data) div nat B)) (tokens data))
               = length (tokens data) mod nat B"
proof -
  define n where "n = nat B"
  define R where "R = length (tokens data) div n"
  define xs where "xs = take (n * R) (tokens data)"
  define m where "m = t_contiguous \<lparr>nrows = n, ncols = R, elems = xs\<rparr>"
  have n: "0 < n" using assms by (simp add: n_def)
  have small: "B < 2 ^ 63" using assms(2) tokens_length[of data] by linarith
  have lenxs: "length xs = n * R" by (simp add: xs_def R_def)
  have b: "batchify data B = Inr m"
    using batchify_pos[of B data] assms small by (simp add: m_def xs_def R_def n_def)
  have cols: "map (column m) [0..<n] = map (\<lambda>c. take R (drop (c * R) xs)) [0..<n]"
  proof (rule map_cong[OF refl])
    fix c assume "c \<in> set [0..<n]"
    then have c: "c < n" by simp
    then have "c * R + R \<le> n * R"
      by (metis Suc_leI mult_Suc mult_le_mono1 add.commute)
    then show "column m c = take R (drop (c * R) xs)"
      using c by (simp add: m_def column_t_contiguous take_drop_nth_map lenxs)
  qed
  have "concat (map (column m) [0..<n]) = xs"
    unfolding cols concat_chunks using lenxs by simp
  moreover have "length (elems m) = nrows m * ncols m"
    by (simp add: m_def t_contiguous_def length_concat_grid)
  moreover have "length (drop (n * R) (tokens data)) = length (tokens data) mod n"
    by (simp add: R_def minus_mult_div_eq_mod)
  ultimately show ?thesis using b
    by (auto simp: m_def t_contiguous_def xs_def R_def n_def)
qed

text \<open>Seven tokens in three columns: two rows, the seventh token dropped.\<close>

theorem batchify_columns_witness:
  "tokens (tensor1 [0, 1, 2, 3, 4, 5, 6 :: nat]) = [0, 1, 2, 3, 4, 5, 6]
   \<and> batchify (tensor1 [0, 1, 2, 3, 4, 5, 6 :: nat]) 3
       = Inr \<lparr>nrows = 2, ncols = 3, elems = [0, 2, 4, 1, 3, 5]\<rparr>"
proof -
  have tk: "tokens (tensor1 [0, 1, 2, 3, 4, 5, 6 :: nat]) = [0, 1, 2, 3, 4, 5, 6]"
    by (simp add: tensor1_inverse)
  have ev: "batchify (tensor1 [0, 1, 2, 3, 4, 5, 6 :: nat]) 3
      = Inr \<lparr>nrows = 2, ncols = 3, elems = [0, 2, 4, 1, 3, 5]\<rparr>"
    by (simp add: batchify_def tensor1_inverse narrow_def int64_def view_rows_def
        t_contiguous_def at2_def upt_rec)
  show ?thesis
    using batchify_columns[of 3 "tensor1 [0, 1, 2, 3, 4, 5, 6 :: nat]"] tk ev by simp
qed

text \<open>
  Claim C8 says that \<open>batchify\<close> fails when \<open>B \<le> 0\<close> or \<open>L < B\<close> and succeeds otherwise.
  The code has no check of its own: a zero width fails in the division and a negative
  width in \<open>narrow\<close> or \<open>view\<close>, but a positive width larger than the sequence gives
  \<open>nbatch = 0\<close> and an empty matrix, without an error.
\<close>

theorem batchify_small_counterexample:
  "int (length (tokens (tensor1 [1, 2 :: nat]))) < 3 \<and>
   batchify (tensor1 [1, 2 :: nat]) 3 = Inr \<lparr>nrows = 0, ncols = 3, elems = []\<rparr>"
  by (simp add: batchify_def tensor1_inverse narrow_def int64_def view_rows_def t_contiguous_def)

text \<open>
  Claim C8, amended. \<open>batchify\<close> fails when \<open>B \<le> 0\<close> (a zero width in the division, a
  negative width in \<open>narrow\<close> or \<open>view\<close>) and when \<open>B\<close> is not a 64-bit size, \<open>B \<ge> 2 ^ 63\<close>
  (in \<open>view\<close>); for every \<open>1 \<le> B < 2 ^ 63\<close> it succeeds, and when \<open>L < B\<close> the result is the
  empty matrix with no rows and \<open>B\<close> columns.
\<close>

theorem batchify_fails_iff:
  "(B \<le> 0 \<or> 2 ^ 63 \<le> B \<longrightarrow> (\<exists>e. batchify data B = Inl e))
   \<and> (0 < B \<and> B < 2 ^ 63 \<longrightarrow> (\<exists>m. batchify data B = Inr m))
   \<and> (0 < B \<and> B < 2 ^ 63 \<and> int (length (tokens data)) < B \<longrightarrow>
        batchify data B = Inr \<lparr>nrows = 0, ncols = nat B, elems = []\<rparr>)"
proof (intro conjI impI)
  assume bad: "B \<le> 0 \<or> 2 ^ 63 \<le> B"
  show "\<exists>e. batchify data B = Inl e"
  proof (cases "B = 0")
    case True then show ?thesis by (simp add: batchify_def)
  next
    case False
    with bad have "B < 0 \<or> \<not> int64 B" by (auto simp: int64_def)
    then have vr: "\<And>d::'a list. \<exists>e. view_rows d B = Inl e"
      by (auto simp: view_rows_def)
    show ?thesis
    proof (cases "narrow (tokens data) 0 (int (length (tokens data)) div B * B)")
      case (Inl e)
      then show ?thesis using False by (simp add: batchify_def)
    next
      case (Inr d)
      obtain e where "view_rows d B = Inl e" using vr by blast
      then show ?thesis using False Inr by (simp add: batchify_def)
    qed
  qed
next
  assume "0 < B \<and> B < 2 ^ 63"
  then show "\<exists>m. batchify data B = Inr m" by (simp add: batchify_pos)
next
  assume a: "0 < B \<and> B < 2 ^ 63 \<and> int (length (tokens data)) < B"
  then have "length (tokens data) < nat B" by linarith
  then have "length (tokens data) div nat B = 0" by simp
  with a show "batchify data B = Inr \<lparr>nrows = 0, ncols = nat B, elems = []\<rparr>"
    by (simp add: batchify_pos t_contiguous_def)
qed

text \<open>Two tokens, with the widths \<open>0\<close>, \<open>-2\<close>, \<open>2 ^ 63\<close>, \<open>1\<close> and \<open>3\<close>.\<close>

theorem batchify_fails_iff_witness:
  "(\<exists>e. batchify (tensor1 [1, 2 :: nat]) 0 = Inl e)
   \<and> (\<exists>e. batchify (tensor1 [1, 2 :: nat]) (- 2) = Inl e)
   \<and> (\<exists>e. batchify (tensor1 [1, 2 :: nat]) (2 ^ 63) = Inl e)
   \<and> (\<exists>m. batchify (tensor1 [1, 2 :: nat]) 1 = Inr m)
   \<and> batchify (tensor1 [1, 2 :: nat]) 3 = Inr \<lparr>nrows = 0, ncols = 3, elems = []\<rparr>"
  using batchify_fails_iff[of 0 "tensor1 [1, 2 :: nat]"]
    batchify_fails_iff[of "- 2" "tensor1 [1, 2 :: nat]"]
    batchify_fails_iff[of "2 ^ 63" "tensor1 [1, 2 :: nat]"]
    batchify_fails_iff[of 1 "tensor1 [1, 2 :: nat]"]
    batchify_fails_iff[of 3 "tensor1 [1, 2 :: nat]"]
  by (simp add: tensor1_inverse)



subsection \<open>Window slicer\<close>

lemma slice_rows_inner:
  assumes "a + k \<le> nrows S"
  shows "slice_rows S (int a) (int a + int k) =
     \<lparr>nrows = k, ncols = ncols S, elems = take (k * ncols S) (drop (a * ncols S) (elems S))\<rparr>"
proof -
  have "slice_index (nrows S) (int a) = a" using assms by (simp add: slice_index_def)
  moreover have "slice_index (nrows S) (int a + int k) = a + k"
    using assms by (simp add: slice_index_def nat_add_distrib)
  ultimately show ?thesis by (simp add: slice_rows_def)
qed

lemma slice_elem:
  assumes "wf_tensor2 S" "a + k \<le> nrows S" "t < k" "c < ncols S"
  shows "take (k * ncols S) (drop (a * ncols S) (elems S)) ! (t * ncols S + c) = at2 S (a + t) c"
proof -
  have 1: "t * ncols S + c < k * ncols S"
    using assms(3,4) by (rule flat_index_bound)
  have "a * ncols S \<le> nrows S * ncols S"
    using assms(2) by (intro mult_le_mono1) simp
  then have 2: "a * ncols S \<le> length (elems S)"
    using assms(1) by (simp add: wf_tensor2_def)
  show ?thesis using 1 2 by (simp add: at2_def add_mult_distrib add.assoc)
qed

lemma slice_length:
  assumes "wf_tensor2 S" "a + k \<le> nrows S"
  shows "length (take (k * ncols S) (drop (a * ncols S) (elems S))) = k * ncols S"
proof -
  have "(a + k) * ncols S \<le> nrows S * ncols S" using assms(2) by (rule mult_le_mono1)
  then show ?thesis using assms(1) by (simp add: wf_tensor2_def add_mult_distrib)
qed

lemma get_batch_inner:
  assumes "0 \<le> i" and "i < int (nrows S) - 1" and "0 \<le> bptt a"
  shows "get_batch a S i =
     (let n = nat i; k = nat (min (bptt a) (int (nrows S) - 1 - i))
      in (\<lparr>nrows = k, ncols = ncols S,
            elems = take (k * ncols S) (drop (n * ncols S) (elems S))\<rparr>,
          take (k * ncols S) (drop ((n + 1) * ncols S) (elems S))))"
proof -
  define n where "n = nat i"
  define k where "k = nat (min (bptt a) (int (nrows S) - 1 - i))"
  have i: "i = int n" using assms(1) by (simp add: n_def)
  have sl: "min (bptt a) (int (nrows S) - 1 - i) = int k"
    using assms by (simp add: k_def)
  have bound: "n + 1 + k \<le> nrows S" using assms by (simp add: n_def k_def)
  then have b0: "n + k \<le> nrows S" by simp
  have d: "slice_rows S i (i + int k) =
      \<lparr>nrows = k, ncols = ncols S, elems = take (k * ncols S) (drop (n * ncols S) (elems S))\<rparr>"
    unfolding i using b0 by (rule slice_rows_inner)
  have t: "slice_rows S (i + 1) (i + 1 + int k) =
      \<lparr>nrows = k, ncols = ncols S, elems = take (k * ncols S) (drop ((n + 1) * ncols S) (elems S))\<rparr>"
    using slice_rows_inner[of "n + 1" k S] bound by (simp add: i add.commute)
  show ?thesis
    unfolding get_batch_def sl Let_def d t n_def[symmetric] k_def[symmetric]
    by (simp add: view_flat_def)
qed

text \<open>
  Claim C2. For a batched stream \<open>S\<close> with \<open>rows\<close> rows and \<open>B\<close> columns, an offset
  \<open>0 \<le> i < rows - 1\<close> and a window size \<open>W\<close> (a size: not negative), \<open>get_batch\<close> returns
  an input and a target of \<open>seq_len * B\<close> elements each, \<open>seq_len = min W (rows - 1 - i)\<close>;
  input row \<open>t\<close> is row \<open>i + t\<close> of \<open>S\<close>, target row \<open>t\<close> is row \<open>i + 1 + t\<close> of \<open>S\<close>, and the
  target is flattened row-major: element \<open>t * B + c\<close> is column \<open>c\<close> of step \<open>t\<close>.
\<close>

theorem get_batch_shift:
  assumes "wf_tensor2 S" and "0 \<le> i" and "i < int (nrows S) - 1" and "0 \<le> bptt a"
  shows "let seq_len = nat (min (bptt a) (int (nrows S) - 1 - i));
             (data, target) = get_batch a S i
         in nrows data = seq_len \<and> ncols data = ncols S
            \<and> length (elems data) = seq_len * ncols S
            \<and> length target = seq_len * ncols S
            \<and> (\<forall>t<seq_len. \<forall>c<ncols S. at2 data t c = at2 S (nat i + t) c)
            \<and> (\<forall>t<seq_len. \<forall>c<ncols S. target ! (t * ncols S + c) = at2 S (nat i + 1 + t) c)"
proof -
  define n where "n = nat i"
  define k where "k = nat (min (bptt a) (int (nrows S) - 1 - i))"
  have bound: "n + 1 + k \<le> nrows S" using assms by (simp add: n_def k_def)
  then have b0: "n + k \<le> nrows S" by simp
  have gb: "get_batch a S i =
     (\<lparr>nrows = k, ncols = ncols S, elems = take (k * ncols S) (drop (n * ncols S) (elems S))\<rparr>,
      take (k * ncols S) (drop ((n + 1) * ncols S) (elems S)))"
    using get_batch_inner[OF assms(2,3,4)] by (simp add: Let_def n_def k_def)
  have l1: "length (take (k * ncols S) (drop (n * ncols S) (elems S))) = k * ncols S"
    using assms(1) b0 by (rule slice_length)
  have l2: "length (take (k * ncols S) (drop ((n + 1) * ncols S) (elems S))) = k * ncols S"
    using assms(1) bound by (intro slice_length) simp_all
  have e1: "\<forall>t<k. \<forall>c<ncols S.
      at2 \<lparr>nrows = k, ncols = ncols S, elems = take (k * ncols S) (drop (n * ncols S) (elems S))\<rparr> t c
        = at2 S (n + t) c"
    using slice_elem[OF assms(1) b0] by (simp add: at2_def)
  have e2: "\<forall>t<k. \<forall>c<ncols S.
      take (k * ncols S) (drop ((n + 1) * ncols S) (elems S)) ! (t * ncols S + c) = at2 S (n + 1 + t) c"
    using slice_elem[OF assms(1), of "n + 1" k] bound by simp
  show ?thesis
    unfolding Let_def k_def[symmetric] n_def[symmetric] gb
    using l1 l2 e1 e2 by simp
qed

text \<open>Three rows, two columns, window size one at offset zero.\<close>

theorem get_batch_shift_witness:
  "wf_tensor2 \<lparr>nrows = 3, ncols = 2, elems = [10, 11, 20, 21, 30, 31 :: nat]\<rparr>
   \<and> get_batch \<lparr>bptt = 1, rank = 0, world_size = 1, lr = 20, epochs = 1\<rparr>
        \<lparr>nrows = 3, ncols = 2, elems = [10, 11, 20, 21, 30, 31 :: nat]\<rparr> 0
      = (\<lparr>nrows = 1, ncols = 2, elems = [10, 11]\<rparr>, [20, 21])"
  using get_batch_shift[of "\<lparr>nrows = 3, ncols = 2, elems = [10, 11, 20, 21, 30, 31 :: nat]\<rparr>" 0
      "\<lparr>bptt = 1, rank = 0, world_size = 1, lr = 20, epochs = 1\<rparr>"]
  by (simp add: wf_tensor2_def get_batch_def slice_rows_def slice_index_def view_flat_def)

subsection \<open>Hidden-state carrier\<close>

lemma repackage_idem: "repackage_hidden (repackage_hidden h) = repackage_hidden h"
  by (induction h) (simp_all add: detach_def)

lemma repackage_values: "values_of (repackage_hidden h) = values_of h"
  by (induction h) (simp_all add: detach_def)

lemma repackage_no_history: "no_history (repackage_hidden h)"
  by (induction h) (simp_all add: detach_def list_all_iff)

text \<open>
  Claim C9. Repackaging is idempotent: for a hidden state that is a tensor or a nested
  tuple of tensors, repackaging twice gives the same state as repackaging once, with
  the values and the tuple structure of the original, and neither result carries a
  backward history.
\<close>

theorem repackage_hidden_idempotent:
  "repackage_hidden (repackage_hidden h) = repackage_hidden h
   \<and> values_of (repackage_hidden (repackage_hidden h)) = values_of h
   \<and> values_of (repackage_hidden h) = values_of h
   \<and> no_history (repackage_hidden h)
   \<and> no_history (repackage_hidden (repackage_hidden h))"
  by (simp add: repackage_idem repackage_values repackage_no_history)



subsection \<open>Distributed step partitioner\<close>

declare range_up.simps [simp del] range_down.simps [simp del]

lemma range_up_lower: "x \<in> set (range_up a stop step) \<Longrightarrow> a \<le> x"
proof (induction a stop step rule: range_up.induct)
  case (1 i stop step)
  then show ?case
    by (subst (asm) (2) range_up.simps) (auto split: if_splits)
qed

lemma set_range_up:
  "0 < step \<Longrightarrow> set (range_up a stop step) = {x. a \<le> x \<and> x < stop \<and> step dvd (x - a)}"
proof (induction a stop step rule: range_up.induct)
  case (1 i stop step)
  show ?case
  proof (cases "i < stop")
    case False
    then show ?thesis by (subst range_up.simps) auto
  next
    case True
    have ih: "set (range_up (i + step) stop step)
        = {x. i + step \<le> x \<and> x < stop \<and> step dvd (x - (i + step))}"
      using 1 True by simp
    have dv: "\<And>x. step dvd (x - (i + step)) \<longleftrightarrow> step dvd (x - i)"
      by (metis add_diff_cancel_right' diff_diff_eq dvd_diff_commute dvd_add_triv_right_iff diff_add_cancel add.commute)
    have "{x. i \<le> x \<and> x < stop \<and> step dvd (x - i)}
        = insert i {x. i + step \<le> x \<and> x < stop \<and> step dvd (x - i)}"
    proof -
      have "\<And>x. i \<le> x \<Longrightarrow> step dvd (x - i) \<Longrightarrow> x \<noteq> i \<Longrightarrow> i + step \<le> x"
      proof -
        fix x assume a: "i \<le> x" "step dvd (x - i)" "x \<noteq> i"
        then have "0 < x - i" by simp
        with a(2) have "step \<le> x - i" by (rule zdvd_imp_le)
        then show "i + step \<le> x" by simp
      qed
      then show ?thesis using True 1(2) by auto
    qed
    then show ?thesis
      using True 1(2) by (subst range_up.simps) (simp add: ih dv)
  qed
qed

lemma sorted_range_up: "sorted_wrt (<) (range_up a stop step)"
proof (induction a stop step rule: range_up.induct)
  case (1 i stop step)
  show ?case
  proof (cases "0 < step \<and> i < stop")
    case False
    then show ?thesis by (subst range_up.simps) auto
  next
    case True
    have "\<forall>x\<in>set (range_up (i + step) stop step). i < x"
      using range_up_lower[of _ "i + step" stop step] True by fastforce
    then show ?thesis using True 1 by (subst range_up.simps) simp
  qed
qed

lemma distinct_concat_upt:
  "(\<And>i. i < n \<Longrightarrow> distinct (f i)) \<Longrightarrow>
   (\<And>i j. i < n \<Longrightarrow> j < n \<Longrightarrow> i \<noteq> j \<Longrightarrow> set (f i) \<inter> set (f j) = {}) \<Longrightarrow>
   distinct (concat (map f [0..<n]))"
proof (induction n)
  case 0 then show ?case by simp
next
  case (Suc n)
  have "distinct (concat (map f [0..<n]))" using Suc by simp
  moreover have "distinct (f n)" using Suc.prems(1) by simp
  moreover have "set (concat (map f [0..<n])) \<inter> set (f n) = {}"
  proof -
    have "\<And>i. i < n \<Longrightarrow> set (f i) \<inter> set (f n) = {}"
      using Suc.prems(2)[of _ n] by simp
    then show ?thesis by fastforce
  qed
  ultimately show ?case by simp
qed

lemma rank_offsets_union:
  fixes W ws stop :: int
  assumes "1 \<le> W" "1 \<le> ws"
  shows "(\<Union>r<nat ws. {x. W * int r \<le> x \<and> x < stop \<and> W * ws dvd (x - W * int r)})
       = {x. 0 \<le> x \<and> x < stop \<and> W dvd (x - 0)}" (is "?L = ?R")
proof (intro equalityI subsetI)
  fix x assume "x \<in> ?L"
  then obtain r where r: "r < nat ws" "W * int r \<le> x" "x < stop" "W * ws dvd (x - W * int r)"
    by auto
  have "W dvd (x - W * int r)" using r(4) by (rule dvd_mult_left)
  then have "W dvd (x - W * int r) + W * int r" by (intro dvd_add) simp_all
  then have "W dvd x" by simp
  moreover have "0 \<le> W * int r" using assms by simp
  ultimately show "x \<in> ?R" using r by simp
next
  fix x assume "x \<in> ?R"
  then have x: "0 \<le> x" "x < stop" "W dvd x" by simp_all
  then obtain j where j: "x = W * j" by (auto elim: dvdE)
  have j0: "0 \<le> j" using x(1) assms(1) j by (simp add: zero_le_mult_iff)
  define r where "r = nat (j mod ws)"
  have rr: "int r = j mod ws" using assms by (simp add: r_def)
  have "r < nat ws" using assms by (simp add: r_def nat_less_iff)
  moreover have "W * int r \<le> x"
    unfolding rr j using assms j0 by (intro mult_left_mono) (simp_all add: zmod_le_nonneg_dividend)
  moreover have "W * ws dvd (x - W * int r)"
  proof -
    have "x - W * int r = W * (j - j mod ws)" by (simp add: j rr right_diff_distrib)
    also have "j - j mod ws = ws * (j div ws)" by (simp add: minus_mod_eq_mult_div)
    finally show ?thesis by simp
  qed
  ultimately show "x \<in> ?L" using x(2) by auto
qed

lemma rank_offsets_disjoint:
  fixes W ws :: int
  assumes "1 \<le> W" "1 \<le> ws" "r1 < nat ws" "r2 < nat ws" "r1 \<noteq> r2"
  shows "{x. W * int r1 \<le> x \<and> x < stop \<and> W * ws dvd (x - W * int r1)}
       \<inter> {x. W * int r2 \<le> x \<and> x < stop \<and> W * ws dvd (x - W * int r2)} = {}"
proof -
  { fix x assume a: "W * ws dvd (x - W * int r1)" "W * ws dvd (x - W * int r2)"
    then have "W * ws dvd ((x - W * int r1) - (x - W * int r2))" by (rule dvd_diff)
    then have "W * ws dvd W * (int r2 - int r1)" by (simp add: right_diff_distrib)
    then have "ws dvd (int r2 - int r1)" using assms(1) by simp
    then have "int r1 mod ws = int r2 mod ws"
      by (metis mod_eq_dvd_iff)
    then have "r1 = r2" using assms(3,4) by (simp add: nat_less_iff)
    then have False using assms(5) by simp }
  then show ?thesis by auto
qed


lemma range_up_progression:
  assumes "0 < step"
  shows "set (range_up a stop step) = {x. x < stop \<and> (\<exists>k::nat. x = a + int k * step)}"
proof -
  have "{x. a \<le> x \<and> x < stop \<and> step dvd (x - a)}
      = {x. x < stop \<and> (\<exists>k::nat. x = a + int k * step)}" (is "?L = ?R")
  proof (intro equalityI subsetI)
    fix x assume "x \<in> ?L"
    then have x: "a \<le> x" "x < stop" "step dvd (x - a)" by simp_all
    then obtain q where q: "x - a = step * q" by (auto elim: dvdE)
    have "0 \<le> step * q" using x(1) q by simp
    then have "0 \<le> q" using assms by (simp add: zero_le_mult_iff)
    then have "x = a + int (nat q) * step" using q by (simp add: mult.commute)
    then show "x \<in> ?R" using x(2) by blast
  next
    fix x assume "x \<in> ?R"
    then obtain k :: nat where k: "x < stop" "x = a + int k * step" by blast
    have "0 \<le> int k * step" using assms by simp
    then show "x \<in> ?L" using k by simp
  qed
  then show ?thesis using set_range_up[OF assms, of a stop] by simp
qed

text \<open>
  Claim C3. For a world size \<open>ws \<ge> 1\<close>, a window size \<open>W\<close> (a size: at least one, the step
  of a \<open>range\<close>) and a stream with \<open>rows\<close> rows, every rank \<open>r < ws\<close> gets the offsets
  \<open>W * r, W * r + W * ws, W * r + 2 * W * ws, \<dots>\<close> that lie below \<open>rows - 1\<close>, in increasing
  order, and a single worker gets \<open>0, W, 2 * W, \<dots>\<close> below \<open>rows - 1\<close>; the offsets of all
  ranks together, sorted, are the offsets of the single worker, and no offset belongs to
  two ranks.
\<close>

theorem partition_cover:
  assumes "1 \<le> bptt a" and "1 \<le> world_size a"
  shows "\<exists>offs single.
      (\<forall>r<nat (world_size a).
          step_offsets (a\<lparr>rank := int r\<rparr>) rows = Inr (offs r)
          \<and> sorted_wrt (<) (offs r)
          \<and> set (offs r) = {x. x < int rows - 1
                \<and> (\<exists>k::nat. x = bptt a * int r + int k * (bptt a * world_size a))})
      \<and> step_offsets (a\<lparr>rank := 0, world_size := 1\<rparr>) rows = Inr single
      \<and> sorted_wrt (<) single
      \<and> set single = {x. x < int rows - 1 \<and> (\<exists>k::nat. x = int k * bptt a)}
      \<and> sort (concat (map offs [0..<nat (world_size a)])) = single
      \<and> (\<forall>r1<nat (world_size a). \<forall>r2<nat (world_size a).
            r1 \<noteq> r2 \<longrightarrow> set (offs r1) \<inter> set (offs r2) = {})"
proof -
  define W where "W = bptt a"
  define ws where "ws = world_size a"
  define stop where "stop = int rows - 1"
  define offs where "offs r = range_up (W * int r) stop (W * ws)" for r :: nat
  define single where "single = range_up 0 stop W"
  have W: "1 \<le> W" and ws: "1 \<le> ws" using assms by (simp_all add: W_def ws_def)
  have step: "0 < W * ws" using W ws by simp
  have set_offs: "set (offs r) = {x. W * int r \<le> x \<and> x < stop \<and> W * ws dvd (x - W * int r)}" for r
    unfolding offs_def using step by (rule set_range_up)
  have prog_offs: "set (offs r) = {x. x < stop \<and> (\<exists>k::nat. x = W * int r + int k * (W * ws))}" for r
    unfolding offs_def using step by (rule range_up_progression)
  have sorted_offs: "sorted_wrt (<) (offs r)" for r
    unfolding offs_def by (rule sorted_range_up)
  have dist_offs: "distinct (offs r)" for r
    using sorted_offs[of r] by (simp add: strict_sorted_iff)
  have disj: "set (offs r1) \<inter> set (offs r2) = {}"
    if "r1 < nat ws" "r2 < nat ws" "r1 \<noteq> r2" for r1 r2
    unfolding set_offs using W ws that by (rule rank_offsets_disjoint)
  have each: "step_offsets (a\<lparr>rank := int r\<rparr>) rows = Inr (offs r)" for r
    using step by (auto simp: step_offsets_def py_range_def offs_def W_def ws_def stop_def)
  have one: "step_offsets (a\<lparr>rank := 0, world_size := 1\<rparr>) rows = Inr single"
    using W by (simp add: step_offsets_def py_range_def W_def stop_def single_def)
  have sorted_single: "sorted_wrt (<) single"
    unfolding single_def by (rule sorted_range_up)
  have prog_single: "set single = {x. x < stop \<and> (\<exists>k::nat. x = int k * W)}"
    using range_up_progression[of W 0 stop] W by (simp add: single_def)
  let ?all = "concat (map offs [0..<nat ws])"
  have "set ?all = (\<Union>r<nat ws. set (offs r))" by auto
  also have "\<dots> = {x. 0 \<le> x \<and> x < stop \<and> W dvd (x - 0)}"
    unfolding set_offs using W ws by (rule rank_offsets_union)
  also have "\<dots> = set single"
    using set_range_up[of W 0 stop] W by (simp add: single_def)
  finally have sets: "set (sort ?all) = set single" by simp
  have "distinct ?all"
    using dist_offs disj by (intro distinct_concat_upt) auto
  then have d1: "distinct (sort ?all)" by simp
  have s2: "sorted single" and d2: "distinct single"
    using sorted_single by (simp_all add: strict_sorted_iff)
  have cover: "sort ?all = single"
    using sorted_sort d1 s2 d2 sets by (rule sorted_distinct_set_unique)
  have ranks: "\<forall>r<nat ws. step_offsets (a\<lparr>rank := int r\<rparr>) rows = Inr (offs r)
          \<and> sorted_wrt (<) (offs r)
          \<and> set (offs r) = {x. x < stop \<and> (\<exists>k::nat. x = W * int r + int k * (W * ws))}"
    using each sorted_offs prog_offs by blast
  have apart: "\<forall>r1<nat ws. \<forall>r2<nat ws. r1 \<noteq> r2 \<longrightarrow> set (offs r1) \<inter> set (offs r2) = {}"
    using disj by blast
  show ?thesis
    unfolding W_def[symmetric] ws_def[symmetric] stop_def[symmetric]
    by (intro exI[of _ offs] exI[of _ single] conjI ranks one sorted_single prog_single cover apart)
qed

text \<open>
  Two workers, window size two, eleven rows: the offsets end below ten, so rank one
  gets \<open>2, 6\<close> and not \<open>10\<close>.
\<close>

theorem partition_cover_witness:
  "step_offsets \<lparr>bptt = 2, rank = 0, world_size = 2, lr = 20, epochs = 1\<rparr> 11 = Inr [0, 4, 8]
   \<and> step_offsets \<lparr>bptt = 2, rank = 1, world_size = 2, lr = 20, epochs = 1\<rparr> 11 = Inr [2, 6]
   \<and> step_offsets \<lparr>bptt = 2, rank = 0, world_size = 1, lr = 20, epochs = 1\<rparr> 11
        = Inr (sort ([0, 4, 8] @ [2, 6]))
   \<and> sort ([0, 4, 8] @ [2, 6]) = [0, 2, 4, 6, 8 :: int]"
proof -
  let ?a = "\<lparr>bptt = 2, rank = 0, world_size = 2, lr = 20, epochs = 1\<rparr>"
  have r0: "step_offsets ?a 11 = Inr [0, 4, 8]"
    by (simp add: step_offsets_def py_range_def range_up.simps)
  have r1: "step_offsets (?a\<lparr>rank := 1\<rparr>) 11 = Inr [2, 6]"
    by (simp add: step_offsets_def py_range_def range_up.simps)
  obtain offs single where o: "\<forall>r<nat 2. step_offsets (?a\<lparr>rank := int r\<rparr>) 11 = Inr (offs r)"
    and s: "step_offsets (?a\<lparr>rank := 0, world_size := 1\<rparr>) 11 = Inr single"
    and c: "sort (concat (map offs [0..<nat 2])) = single"
    using partition_cover[of ?a 11] by auto
  have "offs 0 = [0, 4, 8]" using o[rule_format, of 0] r0 by simp
  moreover have "offs 1 = [2, 6]" using o[rule_format, of 1] r1 by simp
  moreover have "[0..<nat 2] = [0, 1]" by (simp add: upt_rec)
  ultimately have "single = sort ([0, 4, 8] @ [2, 6])" using c by simp
  then show ?thesis using r0 r1 s by simp
qed


subsection \<open>Evaluation loop\<close>

lemma eval_loop_total:
  "fst (eval_loop a model criterion src offs (t, h))
     = t + (\<Sum>(n, l) \<leftarrow> eval_windows a model criterion src offs h. real n * l)"
proof (induction offs arbitrary: t h)
  case Nil
  then show ?case by simp
next
  case (Cons i offs)
  show ?case
    by (simp add: Cons.IH Let_def split: prod.splits)
qed

lemma eval_windows_lengths:
  "map fst (eval_windows a model criterion src offs h)
     = map (\<lambda>i. nrows (fst (get_batch a src i))) offs"
  by (induction offs arbitrary: h) (simp_all add: Let_def split: prod.splits)

text \<open>
  Claim C7. An evaluation pass over a stream with \<open>rows\<close> rows returns the sum, over its
  windows, of the window length times the mean loss of the window, divided by
  \<open>(rows - 1) / world_size\<close>. The windows are cut at the offsets of the nominal window
  size and have the length \<open>min (bptt, rows - 1 - i)\<close>; nothing random enters, the result
  is a function of the inputs and the model. With a single row the divisor is zero and
  the division raises instead of returning.
\<close>

theorem evaluate_metric:
  assumes "1 \<le> bptt a" and "1 \<le> world_size a" and "0 \<le> rank a"
  shows "\<exists>offs. step_offsets a (nrows src) = Inr offs
     \<and> map fst (eval_windows a model criterion src offs hidden0)
         = map (\<lambda>i. nat (min (bptt a) (int (nrows src) - 1 - i))) offs
     \<and> evaluate a model criterion src hidden0 =
         (if nrows src = 1 then Inl ZeroDivisionError
          else Inr ((\<Sum>(n, l) \<leftarrow> eval_windows a model criterion src offs hidden0. real n * l)
                    / (real_of_int (int (nrows src) - 1) / real_of_int (world_size a))))"
proof -
  define offs where "offs = range_up (bptt a * rank a) (int (nrows src) - 1) (bptt a * world_size a)"
  have step: "0 < bptt a * world_size a" using assms by simp
  have so: "step_offsets a (nrows src) = Inr offs"
    using step by (auto simp: step_offsets_def py_range_def offs_def)
  have rng: "0 \<le> i \<and> i < int (nrows src) - 1" if "i \<in> set offs" for i
  proof -
    have "bptt a * rank a \<le> i \<and> i < int (nrows src) - 1"
      using that set_range_up[OF step] by (simp add: offs_def)
    moreover have "0 \<le> bptt a * rank a" using assms by simp
    ultimately show ?thesis by simp
  qed
  have len: "nrows (fst (get_batch a src i)) = nat (min (bptt a) (int (nrows src) - 1 - i))"
    if "i \<in> set offs" for i
    using get_batch_inner[of i src a] rng[OF that] assms(1) by (simp add: Let_def)
  have lens: "map fst (eval_windows a model criterion src offs hidden0)
      = map (\<lambda>i. nat (min (bptt a) (int (nrows src) - 1 - i))) offs"
    unfolding eval_windows_lengths using len by (intro map_cong) simp_all
  have ws: "world_size a \<noteq> 0" using assms by simp
  have "evaluate a model criterion src hidden0 =
         (if nrows src = 1 then Inl ZeroDivisionError
          else Inr ((\<Sum>(n, l) \<leftarrow> eval_windows a model criterion src offs hidden0. real n * l)
                    / (real_of_int (int (nrows src) - 1) / real_of_int (world_size a))))"
    unfolding evaluate_def so using ws
    by (auto simp: Let_def split_beta eval_loop_total)
  with so lens show ?thesis by blast
qed


text \<open>Six rows, window size two: windows of two, two and one rows, each with mean loss three.\<close>

theorem evaluate_metric_witness:
  "evaluate \<lparr>bptt = 2, rank = 0, world_size = 1, lr = 20, epochs = 1\<rparr>
     (\<lambda>data hidden. ((), hidden)) (\<lambda>output targets. 3)
     \<lparr>nrows = 6, ncols = 1, elems = [0, 1, 2, 3, 4, 5 :: nat]\<rparr> (Tuple [] :: (unit, unit) hidden)
   = Inr ((2 * 3 + 2 * 3 + 1 * 3) / (5 / 1))"
  using evaluate_metric[of "\<lparr>bptt = 2, rank = 0, world_size = 1, lr = 20, epochs = 1\<rparr>"
      "\<lparr>nrows = 6, ncols = 1, elems = [0, 1, 2, 3, 4, 5 :: nat]\<rparr>"
      "\<lambda>data hidden. ((), hidden)" "\<lambda>output targets. 3" "Tuple [] :: (unit, unit) hidden"]
  by (simp add: evaluate_def step_offsets_def py_range_def range_up.simps get_batch_def
      slice_rows_def slice_index_def view_flat_def)


subsection \<open>Training loop\<close>

lemma train_loop_fixed_lr:
  "train_loop a train_step src offs (opt, m, h) =
     (opt, fold (\<lambda>i (m, h). case get_batch a src i of
                   (data, targets) \<Rightarrow> train_step (group_lr opt) data targets (repackage_hidden h) m)
             offs (m, h))"
  by (induction offs arbitrary: m h) (simp_all add: Let_def split: prod.splits)

lemma step_offsets_returns:
  assumes "bptt a \<noteq> 0" and "world_size a \<noteq> 0"
  shows "\<exists>offs. step_offsets a rows = Inr offs"
proof -
  have "bptt a * world_size a \<noteq> 0" using assms by simp
  then show ?thesis by (simp add: step_offsets_def py_range_def)
qed

lemma train_eq:
  assumes "bptt a \<noteq> 0" and "step_offsets a (nrows src) = Inr offs"
  shows "train a u normal train_step src hidden0 (opt, m) =
            Inr (opt, fst (snd (train_loop a train_step src offs
                   (opt\<lparr>group_lr := group_lr opt * real_of_int (train_seq_len a u normal)
                                      / real_of_int (bptt a)\<rparr>, m, hidden0))))"
proof -
  have sc: "train_scale_lr a u normal opt =
      Inr (opt\<lparr>group_lr := group_lr opt * real_of_int (train_seq_len a u normal)
                                      / real_of_int (bptt a)\<rparr>)"
    using assms(1) by (simp add: train_scale_lr_def Let_def)
  show ?thesis
    by (simp add: train_def sc assms(2) train_loop_fixed_lr split_beta)
qed


text \<open>
  Claim C5 says that the learning rate is scaled for one step and restored after that
  step. The code scales it once, before the loop, and restores it once, after the loop:
  with offsets \<open>0, 2, 4\<close> and a base rate of \<open>20\<close> scaled to \<open>50\<close>, the optimizer still
  holds \<open>50\<close> after the first step.
\<close>

theorem lr_between_steps_counterexample:
  "train_scale_lr \<lparr>bptt = 2, rank = 0, world_size = 1, lr = 20, epochs = 1\<rparr> (1 / 2) (\<lambda>loc scale. 1)
       \<lparr>group_lr = 20\<rparr> = Inr \<lparr>group_lr = 50\<rparr>
   \<and> step_offsets \<lparr>bptt = 2, rank = 0, world_size = 1, lr = 20, epochs = 1\<rparr> 6 = Inr [0, 2, 4]
   \<and> train_loop \<lparr>bptt = 2, rank = 0, world_size = 1, lr = 20, epochs = 1\<rparr>
        (\<lambda>lr data targets hidden m. (m @ [(lr, elems data)], hidden))
        \<lparr>nrows = 6, ncols = 1, elems = [0, 1, 2, 3, 4, 5 :: nat]\<rparr> (take 1 [0, 2, 4])
        (\<lparr>group_lr = 50\<rparr>, [], Tuple [] :: (unit, unit) hidden)
      = (\<lparr>group_lr = 50\<rparr>, [(50, [0, 1])], Tuple [])
   \<and> group_lr \<lparr>group_lr = 50\<rparr> \<noteq> group_lr \<lparr>group_lr = 20\<rparr>"
  by (simp add: train_scale_lr_def train_seq_len_def train_bptt_def py_int_def
      step_offsets_def py_range_def range_up.simps get_batch_def
      slice_rows_def slice_index_def view_flat_def)

text \<open>
  Claim C5, amended. A call of \<open>train\<close> scales the optimizer's learning rate once, on entry,
  to \<open>lr_base * seq_len / W\<close>; every step of the epoch runs with that rate, the optimizer
  holds it after every step of the loop as well, and the base rate is restored only after
  the last step, so that the optimizer \<open>train\<close> returns is the one it was given.
\<close>

theorem train_lr_scaled_for_epoch:
  assumes "bptt a \<noteq> 0" and "world_size a \<noteq> 0"
  shows "\<exists>offs opt1. step_offsets a (nrows src) = Inr offs
     \<and> train_scale_lr a u normal opt = Inr opt1
     \<and> group_lr opt1 = group_lr opt * real_of_int (train_seq_len a u normal) / real_of_int (bptt a)
     \<and> (\<forall>k\<le>length offs.
           fst (train_loop a train_step src (take k offs) (opt1, m, hidden0)) = opt1)
     \<and> snd (train_loop a train_step src offs (opt1, m, hidden0)) =
           fold (\<lambda>i (m, h). case get_batch a src i of
                   (data, targets) \<Rightarrow>
                     train_step (group_lr opt * real_of_int (train_seq_len a u normal)
                                   / real_of_int (bptt a)) data targets (repackage_hidden h) m)
             offs (m, hidden0)
     \<and> train a u normal train_step src hidden0 (opt, m) =
           Inr (opt, fst (snd (train_loop a train_step src offs (opt1, m, hidden0))))"
proof -
  obtain offs where so: "step_offsets a (nrows src) = Inr offs"
    using step_offsets_returns[OF assms] by blast
  define opt1 where "opt1 = opt\<lparr>group_lr := group_lr opt * real_of_int (train_seq_len a u normal)
                                      / real_of_int (bptt a)\<rparr>"
  have sc: "train_scale_lr a u normal opt = Inr opt1"
    using assms(1) by (simp add: train_scale_lr_def opt1_def Let_def)
  have lr1: "group_lr opt1 = group_lr opt * real_of_int (train_seq_len a u normal) / real_of_int (bptt a)"
    by (simp add: opt1_def)
  have pre: "\<forall>k\<le>length offs.
           fst (train_loop a train_step src (take k offs) (opt1, m, hidden0)) = opt1"
    by (simp add: train_loop_fixed_lr)
  have body: "snd (train_loop a train_step src offs (opt1, m, hidden0)) =
           fold (\<lambda>i (m, h). case get_batch a src i of
                   (data, targets) \<Rightarrow>
                     train_step (group_lr opt * real_of_int (train_seq_len a u normal)
                                   / real_of_int (bptt a)) data targets (repackage_hidden h) m)
             offs (m, hidden0)"
    by (simp add: train_loop_fixed_lr lr1)
  have tr: "train a u normal train_step src hidden0 (opt, m) =
           Inr (opt, fst (snd (train_loop a train_step src offs (opt1, m, hidden0))))"
    unfolding opt1_def using assms(1) so by (rule train_eq)
  show ?thesis
    by (intro exI[of _ offs] exI[of _ opt1] conjI so sc lr1 pre body tr)
qed

text \<open>The recorded learning rate of each of the three steps is \<open>50\<close>; the returned one is \<open>20\<close>.\<close>

theorem train_lr_scaled_for_epoch_witness:
  "train \<lparr>bptt = 2, rank = 0, world_size = 1, lr = 20, epochs = 1\<rparr> (1 / 2) (\<lambda>loc scale. 1)
        (\<lambda>lr data targets hidden m. (m @ [(lr, elems data)], hidden))
        \<lparr>nrows = 6, ncols = 1, elems = [0, 1, 2, 3, 4, 5 :: nat]\<rparr>
        (Tuple [] :: (unit, unit) hidden) (\<lparr>group_lr = 20\<rparr>, [])
      = Inr (\<lparr>group_lr = 20\<rparr>, [(50, [0, 1]), (50, [2, 3]), (50, [4])])"
  using train_lr_scaled_for_epoch[of "\<lparr>bptt = 2, rank = 0, world_size = 1, lr = 20, epochs = 1\<rparr>"
      "\<lparr>nrows = 6, ncols = 1, elems = [0, 1, 2, 3, 4, 5 :: nat]\<rparr>" "1 / 2" "\<lambda>loc scale. 1"
      "\<lparr>group_lr = 20\<rparr>" "\<lambda>lr data targets hidden m. (m @ [(lr, elems data)], hidden)"
      "[]" "Tuple [] :: (unit, unit) hidden"]
  by (simp add: train_def train_scale_lr_def train_seq_len_def train_bptt_def py_int_def
      step_offsets_def py_range_def range_up.simps get_batch_def
      slice_rows_def slice_index_def view_flat_def)

text \<open>
  Claim C6 says that the sequence length is rounded and that the offsets of the epoch are
  computed with the drawn effective window size. The code truncates (\<^verbatim>\<open>int\<close>) and its
  \<open>range\<close> uses \<^verbatim>\<open>args.bptt\<close>: with a nominal size of \<open>4\<close> and the draw \<open>0.99\<close> the effective
  size is \<open>2\<close>, yet the windows start at \<open>0, 4, 8\<close>; a normal draw of \<open>7.9\<close> gives the
  sequence length \<open>7\<close>, not \<open>8\<close>.
\<close>

theorem nominal_stride_counterexample:
  "train_bptt \<lparr>bptt = 4, rank = 0, world_size = 1, lr = 20, epochs = 1\<rparr> (99 / 100) = 2
   \<and> train \<lparr>bptt = 4, rank = 0, world_size = 1, lr = 20, epochs = 1\<rparr> (99 / 100) (\<lambda>loc scale. 79 / 10)
        (\<lambda>lr data targets hidden m. (m @ [elems data], hidden))
        \<lparr>nrows = 10, ncols = 1, elems = [0, 1, 2, 3, 4, 5, 6, 7, 8, 9 :: nat]\<rparr>
        (Tuple [] :: (unit, unit) hidden) (\<lparr>group_lr = 20\<rparr>, [])
      = Inr (\<lparr>group_lr = 20\<rparr>, [[0, 1, 2, 3], [4, 5, 6, 7], [8]])
   \<and> step_offsets \<lparr>bptt = 4, rank = 0, world_size = 1, lr = 20, epochs = 1\<rparr> 10 = Inr [0, 4, 8]
   \<and> step_offsets \<lparr>bptt = 2, rank = 0, world_size = 1, lr = 20, epochs = 1\<rparr> 10 = Inr [0, 2, 4, 6, 8]
   \<and> train_seq_len \<lparr>bptt = 4, rank = 0, world_size = 1, lr = 20, epochs = 1\<rparr> (99 / 100)
        (\<lambda>loc scale. 79 / 10) = 7
   \<and> max 5 (round (79 / 10 :: real)) = (8 :: int)"
  by (simp add: train_def train_scale_lr_def train_seq_len_def train_bptt_def py_int_def
      step_offsets_def py_range_def range_up.simps get_batch_def
      slice_rows_def slice_index_def view_flat_def round_def)

text \<open>
  Claim C6, amended. A call of \<open>train\<close> draws once, on entry: the effective window size is
  the nominal \<open>W\<close> when the uniform draw is below \<open>0.95\<close> and \<open>W / 2\<close> otherwise, and the
  sequence length is \<open>max 5\<close> of the normal draw around it, truncated towards zero. The
  offsets of the epoch are those of the nominal \<open>W\<close>, the same for every draw; the draws
  reach the epoch only through the scaled learning rate.
\<close>

theorem train_window_draw:
  assumes "bptt a \<noteq> 0" and "world_size a \<noteq> 0"
  shows "(\<forall>u normal. train_seq_len a u normal =
            max 5 (py_int (normal (if u < 95 / 100 then real_of_int (bptt a)
                                   else real_of_int (bptt a) / 2) 5)))
     \<and> (\<exists>offs. py_range (bptt a * rank a) (int (nrows src) - 1) (bptt a * world_size a) = Inr offs
          \<and> (\<forall>u normal.
               train a u normal train_step src hidden0 (opt, m) =
                 Inr (opt, fst (snd (train_loop a train_step src offs
                        (opt\<lparr>group_lr := group_lr opt * real_of_int (train_seq_len a u normal)
                                           / real_of_int (bptt a)\<rparr>, m, hidden0))))))"
proof (intro conjI)
  show "\<forall>u normal. train_seq_len a u normal =
            max 5 (py_int (normal (if u < 95 / 100 then real_of_int (bptt a)
                                   else real_of_int (bptt a) / 2) 5))"
    by (simp add: train_seq_len_def train_bptt_def)
next
  obtain offs where so: "step_offsets a (nrows src) = Inr offs"
    using step_offsets_returns[OF assms] by blast
  have "\<forall>u normal.
               train a u normal train_step src hidden0 (opt, m) =
                 Inr (opt, fst (snd (train_loop a train_step src offs
                        (opt\<lparr>group_lr := group_lr opt * real_of_int (train_seq_len a u normal)
                                           / real_of_int (bptt a)\<rparr>, m, hidden0))))"
    by (intro allI train_eq[OF assms(1) so])
  moreover have "py_range (bptt a * rank a) (int (nrows src) - 1) (bptt a * world_size a) = Inr offs"
    using so by (simp add: step_offsets_def)
  ultimately show "\<exists>offs. py_range (bptt a * rank a) (int (nrows src) - 1) (bptt a * world_size a) = Inr offs
          \<and> (\<forall>u normal.
               train a u normal train_step src hidden0 (opt, m) =
                 Inr (opt, fst (snd (train_loop a train_step src offs
                        (opt\<lparr>group_lr := group_lr opt * real_of_int (train_seq_len a u normal)
                                           / real_of_int (bptt a)\<rparr>, m, hidden0)))))"
    by blast
qed


text \<open>The windows start at \<open>0, 4, 8\<close> and every step runs at \<open>20 * 7 / 4 = 35\<close>.\<close>

theorem train_window_draw_witness:
  "train \<lparr>bptt = 4, rank = 0, world_size = 1, lr = 20, epochs = 1\<rparr> (99 / 100) (\<lambda>loc scale. 79 / 10)
        (\<lambda>lr data targets hidden m. (m @ [(lr, elems data)], hidden))
        \<lparr>nrows = 10, ncols = 1, elems = [0, 1, 2, 3, 4, 5, 6, 7, 8, 9 :: nat]\<rparr>
        (Tuple [] :: (unit, unit) hidden) (\<lparr>group_lr = 20\<rparr>, [])
      = Inr (\<lparr>group_lr = 20\<rparr>, [(35, [0, 1, 2, 3]), (35, [4, 5, 6, 7]), (35, [8])])"
  using train_window_draw[of "\<lparr>bptt = 4, rank = 0, world_size = 1, lr = 20, epochs = 1\<rparr>"
      "\<lparr>nrows = 10, ncols = 1, elems = [0, 1, 2, 3, 4, 5, 6, 7, 8, 9 :: nat]\<rparr>"
      "\<lambda>lr data targets hidden m. (m @ [(lr, elems data)], hidden)"
      "Tuple [] :: (unit, unit) hidden" "\<lparr>group_lr = 20\<rparr>" "[]"]
  by (simp add: train_def train_scale_lr_def train_seq_len_def train_bptt_def py_int_def
      step_offsets_def py_range_def range_up.simps get_batch_def
      slice_rows_def slice_index_def view_flat_def)

subsection \<open>Epoch controller\<close>


lemma epoch_end_improved:
  assumes "case best_val_loss st of None \<Rightarrow> True | Some b \<Rightarrow> v < b"
  shows "epoch_end epoch v st = st\<lparr>saved := saved st @ [epoch], best_val_loss := Some v\<rparr>"
  using assms by (auto simp: epoch_end_def py_not_def split: option.splits)

lemma epoch_end_not_improved:
  assumes "best_val_loss st = Some b" and "b \<noteq> 0" and "\<not> v < b"
  shows "epoch_end epoch v st =
     st\<lparr>cur_lr := cur_lr st / 4, optim := (optim st)\<lparr>group_lr := cur_lr st / 4\<rparr>\<rparr>"
  using assms by (simp add: epoch_end_def py_not_def)

lemma epoch_loop_all_saved:
  assumes "\<forall>e\<in>set es. case best_val_loss st of None \<Rightarrow> True | Some b \<Rightarrow> val_loss e < b"
    and "sorted_wrt (\<lambda>e e'. val_loss e' < val_loss e) es"
  shows "epoch_loop val_loss es st =
     st\<lparr>saved := saved st @ es,
        best_val_loss := (if es = [] then best_val_loss st else Some (val_loss (last es)))\<rparr>"
  using assms
proof (induction es arbitrary: st)
  case Nil
  then show ?case by simp
next
  case (Cons e es)
  let ?st = "st\<lparr>saved := saved st @ [e], best_val_loss := Some (val_loss e)\<rparr>"
  have step: "epoch_end e (val_loss e) st = ?st"
    using Cons.prems(1) by (intro epoch_end_improved) simp
  have "epoch_loop val_loss es ?st =
     ?st\<lparr>saved := saved ?st @ es,
        best_val_loss := (if es = [] then best_val_loss ?st else Some (val_loss (last es)))\<rparr>"
    using Cons.prems(2) by (intro Cons.IH) simp_all
  then show ?case by (simp add: step)
qed

lemma epoch_loop_all_annealed:
  assumes "best_val_loss st = Some b" and "b \<noteq> 0" and "\<forall>e\<in>set es. \<not> val_loss e < b"
  shows "epoch_loop val_loss es st =
     (if es = [] then st
      else st\<lparr>cur_lr := cur_lr st / 4 ^ length es,
              optim := (optim st)\<lparr>group_lr := cur_lr st / 4 ^ length es\<rparr>\<rparr>)"
  using assms
proof (induction es arbitrary: st)
  case Nil
  then show ?case by simp
next
  case (Cons e es)
  let ?st = "st\<lparr>cur_lr := cur_lr st / 4, optim := (optim st)\<lparr>group_lr := cur_lr st / 4\<rparr>\<rparr>"
  have step: "epoch_end e (val_loss e) st = ?st"
    using Cons.prems by (intro epoch_end_not_improved[of st b]) simp_all
  have ih: "epoch_loop val_loss es ?st =
     (if es = [] then ?st
      else ?st\<lparr>cur_lr := cur_lr ?st / 4 ^ length es,
              optim := (optim ?st)\<lparr>group_lr := cur_lr ?st / 4 ^ length es\<rparr>\<rparr>)"
    using Cons.prems by (intro Cons.IH[of ?st]) simp_all
  show ?case by (simp add: step ih)
qed

text \<open>
  With strictly decreasing validation losses every epoch writes a snapshot and the
  learning rate stays as configured.
\<close>

lemma controller_decreasing:
  assumes "epochs a = int n"
    and "\<forall>e e'. 1 \<le> e \<and> e < e' \<and> e' \<le> n \<longrightarrow> val_loss e' < val_loss e"
  shows "saved (run_epochs a val_loss) = [1..<n + 1]
       \<and> cur_lr (run_epochs a val_loss) = lr a
       \<and> optim (run_epochs a val_loss) = \<lparr>group_lr = lr a\<rparr>"
proof -
  define st0 where "st0 = \<lparr>cur_lr = lr a, best_val_loss = None, optim = \<lparr>group_lr = lr a\<rparr>, saved = []\<rparr>"
  define es where "es = [1..<n + 1]"
  have s: "sorted_wrt (\<lambda>e e'. val_loss e' < val_loss e) es"
    unfolding es_def sorted_wrt_iff_nth_less using assms(2)
    by (auto simp del: upt_Suc)
  have n: "nat (epochs a + 1) = n + 1" using assms(1) by simp
  have b: "\<forall>e\<in>set es. case best_val_loss st0 of None \<Rightarrow> True | Some b \<Rightarrow> val_loss e < b"
    by (simp add: st0_def)
  have "run_epochs a val_loss = epoch_loop val_loss es st0"
    by (simp only: run_epochs_def n es_def st0_def)
  also have "\<dots> = st0\<lparr>saved := saved st0 @ es,
        best_val_loss := (if es = [] then best_val_loss st0 else Some (val_loss (last es)))\<rparr>"
    using b s by (rule epoch_loop_all_saved)
  finally show ?thesis by (simp add: st0_def es_def del: upt_Suc)
qed


text \<open>
  With strictly increasing validation losses whose first value is not zero, only the
  first epoch writes a snapshot and every later epoch divides the learning rate by four.
\<close>

lemma controller_increasing:
  assumes "epochs a = int n" and "1 \<le> n" and "val_loss 1 \<noteq> 0"
    and "\<forall>e e'. 1 \<le> e \<and> e < e' \<and> e' \<le> n \<longrightarrow> val_loss e < val_loss e'"
  shows "saved (run_epochs a val_loss) = [1]
       \<and> cur_lr (run_epochs a val_loss) = lr a / 4 ^ (n - 1)
       \<and> group_lr (optim (run_epochs a val_loss)) = lr a / 4 ^ (n - 1)"
proof -
  define st0 where "st0 = \<lparr>cur_lr = lr a, best_val_loss = None, optim = \<lparr>group_lr = lr a\<rparr>, saved = []\<rparr>"
  define st1 where "st1 = st0\<lparr>saved := [1], best_val_loss := Some (val_loss 1)\<rparr>"
  define es where "es = [2..<n + 1]"
  have n: "nat (epochs a + 1) = n + 1" using assms(1) by simp
  have l: "[1..<n + 1] = 1 # es"
    using assms(2) upt_conv_Cons[of 1 "n + 1"] by (simp add: es_def numeral_2_eq_2 del: upt_Suc)
  have len: "length es = n - 1" by (simp add: es_def del: upt_Suc)
  have first: "epoch_end 1 (val_loss 1) st0 = st1"
    by (simp add: epoch_end_def py_not_def st0_def st1_def)
  have rest: "\<forall>e\<in>set es. \<not> val_loss e < val_loss 1"
  proof
    fix e assume "e \<in> set es"
    then have "1 \<le> (1::nat) \<and> 1 < e \<and> e \<le> n" by (auto simp: es_def simp del: upt_Suc)
    then have "val_loss 1 < val_loss e" using assms(4) by blast
    then show "\<not> val_loss e < val_loss 1" by simp
  qed
  have b1: "best_val_loss st1 = Some (val_loss 1)" by (simp add: st1_def)
  have "run_epochs a val_loss = epoch_loop val_loss es st1"
    by (simp only: run_epochs_def n l epoch_loop.simps first st0_def[symmetric])
  also have "\<dots> = (if es = [] then st1
      else st1\<lparr>cur_lr := cur_lr st1 / 4 ^ length es,
              optim := (optim st1)\<lparr>group_lr := cur_lr st1 / 4 ^ length es\<rparr>\<rparr>)"
    using b1 assms(3) rest by (rule epoch_loop_all_annealed)
  finally have r: "run_epochs a val_loss = (if es = [] then st1
      else st1\<lparr>cur_lr := cur_lr st1 / 4 ^ (n - 1),
              optim := (optim st1)\<lparr>group_lr := cur_lr st1 / 4 ^ (n - 1)\<rparr>\<rparr>)"
    by (simp only: len)
  show ?thesis
  proof (cases "es = []")
    case True
    then have "n - 1 = 0" using len by simp
    then show ?thesis using r True by (simp add: st1_def st0_def)
  next
    case False
    then show ?thesis using r by (simp add: st1_def st0_def)
  qed
qed


text \<open>
  Claim C4 (second half), at the losses \<open>0, 1\<close>: strictly increasing, yet the second epoch
  writes a snapshot again and the learning rate is still \<open>20\<close>, because the test
  \<^verbatim>\<open>not best_val_loss\<close> holds for a best loss of zero. The comment above the test says the
  snapshot is written when the validation loss is the best seen so far.
\<close>

theorem increasing_from_zero_saves_again:
  "run_epochs \<lparr>bptt = 35, rank = 0, world_size = 1, lr = 20, epochs = 2\<rparr> (\<lambda>epoch. real epoch - 1)
     = \<lparr>cur_lr = 20, best_val_loss = Some 1, optim = \<lparr>group_lr = 20\<rparr>, saved = [1, 2]\<rparr>"
  by (simp add: run_epochs_def epoch_end_def py_not_def upt_rec)

text \<open>
  Claim C10. At an epoch where the best validation loss so far is exactly zero, as where
  it is unset, the checkpoint branch is taken whatever the new validation loss is: the
  snapshot is written, the best loss becomes the new one, and neither the learning rate
  variable nor the optimizer's learning rate changes.
\<close>

theorem zero_best_takes_checkpoint_branch:
  assumes "best_val_loss st = Some 0"
  shows "epoch_end epoch v st = st\<lparr>saved := saved st @ [epoch], best_val_loss := Some v\<rparr>
         \<and> cur_lr (epoch_end epoch v st) = cur_lr st
         \<and> optim (epoch_end epoch v st) = optim st
         \<and> epoch_end epoch v (st\<lparr>best_val_loss := None\<rparr>)
             = st\<lparr>saved := saved st @ [epoch], best_val_loss := Some v\<rparr>"
  using assms by (simp add: epoch_end_def py_not_def)

text \<open>A best loss of zero followed by a validation loss of five.\<close>

theorem zero_best_takes_checkpoint_branch_witness:
  "epoch_end 2 5 \<lparr>cur_lr = 20, best_val_loss = Some 0, optim = \<lparr>group_lr = 20\<rparr>, saved = [1]\<rparr>
     = \<lparr>cur_lr = 20, best_val_loss = Some 5, optim = \<lparr>group_lr = 20\<rparr>, saved = [1, 2]\<rparr>"
  using zero_best_takes_checkpoint_branch
    [of "\<lparr>cur_lr = 20, best_val_loss = Some 0, optim = \<lparr>group_lr = 20\<rparr>, saved = [1]\<rparr>" 2 5]
  by simp

end
